theory Spec2Isabelle
  imports Main "HOL-Library.Finite_Map"
begin

section \<open>Data model of \<^verbatim>\<open>src/useStore.tsx\<close>\<close>

text \<open>
  The store of the command palette keeps one committed snapshot (\<^verbatim>\<open>KBarState\<close>).
  Its \<^verbatim>\<open>actions\<close> field is a JavaScript object used as a dictionary from action
  ids to \<^verbatim>\<open>Action\<close> objects. Both the dictionary and the \<^verbatim>\<open>Action\<close> objects are
  shared, mutable JavaScript objects: \<^verbatim>\<open>registerActions\<close> pushes onto
  \<^verbatim>\<open>parent.children\<close> and \<^verbatim>\<open>unregister\<close> runs \<^verbatim>\<open>delete allActions[actionId]\<close>.
  The embedding therefore keeps an explicit object store: \<^verbatim>\<open>Action\<close> objects live
  at addresses of a heap, dictionaries live at addresses of a second heap, and a
  snapshot refers to its dictionary by address.

  A dictionary is a plain object, so reading a key that it does not hold itself
  continues in \<^verbatim>\<open>Object.prototype\<close>: the names \<^verbatim>\<open>toString\<close>, \<^verbatim>\<open>constructor\<close> and
  nine more read as built-in functions, and \<^verbatim>\<open>__proto__\<close> reads as
  \<^verbatim>\<open>Object.prototype\<close> itself. The code can give such a built-in function a
  \<^verbatim>\<open>children\<close> array, so the store holds these arrays too.

  Conventions of the embedding:
  \<^item> an \<^verbatim>\<open>ActionId\<close> is a string; \<^verbatim>\<open>null\<close> and \<^verbatim>\<open>undefined\<close> are both \<open>None\<close>;
  \<^item> a dictionary is the map of the keys it holds itself; its prototype is
    \<^verbatim>\<open>Object.prototype\<close>, and \<^verbatim>\<open>Object.prototype\<close> has no \<^verbatim>\<open>children\<close>. A call that
    would replace the prototype of a dictionary or give \<^verbatim>\<open>Object.prototype\<close> a
    \<^verbatim>\<open>children\<close> array is not followed: it ends with the mark \<open>Untracked\<close>;
  \<^item> a \<^verbatim>\<open>children\<close> array is a value held by its object (no array is shared
    between two objects);
  \<^item> React's \<^verbatim>\<open>setState(updater)\<close> applies the updater to the committed snapshot
    at once; an updater that throws commits nothing.
\<close>

type_synonym ActionId = string

type_synonym aref = nat

type_synonym tref = nat

datatype VisualState = animatingIn | showing | animatingOut | hidden

text \<open>
  Modelled from the spec: the declarations of \<^verbatim>\<open>./types\<close> (\<^verbatim>\<open>Action\<close>,
  \<^verbatim>\<open>ActionTree\<close>, \<^verbatim>\<open>KBarState\<close>, \<^verbatim>\<open>VisualState\<close>) are not among the source files.
  An \<^verbatim>\<open>Action\<close> has an identifier, a display payload the store never reads (here
  its \<^verbatim>\<open>name\<close>), an optional \<^verbatim>\<open>parent\<close> and an optional \<^verbatim>\<open>children\<close> array.
\<close>

record Action =
  action_id :: ActionId
  name :: string
  parent :: "ActionId option"
  children :: "ActionId list option"

type_synonym ActionTree = "ActionId \<rightharpoonup> aref"

record KBarState =
  searchQuery :: string
  currentRootActionId :: "ActionId option"
  visualState :: VisualState
  actions :: tref

text \<open>
  The world: the heap of \<^verbatim>\<open>Action\<close> objects, the \<^verbatim>\<open>children\<close> property of each
  built-in function of \<^verbatim>\<open>Object.prototype\<close> (by the name it is inherited under), the
  heap of dictionaries with its allocation pointer, and the committed snapshot
  (\<^verbatim>\<open>currState.current\<close>).
\<close>

record World =
  heap :: "aref \<Rightarrow> Action"
  builtins :: "string \<Rightarrow> ActionId list option"
  trees :: "tref \<Rightarrow> ActionTree"
  next_tree :: tref
  state :: KBarState

text \<open>
  \<open>Error m\<close> is \<^verbatim>\<open>new Error(m)\<close>, thrown. \<open>Untracked\<close> is not an exception of the
  code: it marks a call that the embedding does not follow (see the conventions).
\<close>

datatype error = Error string | Untracked

section \<open>The state container\<close>

text \<open>
  An updater maps the committed snapshot to the next one; it may mutate the object
  store on the way and it may throw. \<^verbatim>\<open>setState\<close> commits the returned snapshot;
  when the updater throws, the mutations it has already made stay and no snapshot is
  committed.
\<close>

type_synonym updater = "KBarState \<Rightarrow> World \<Rightarrow> (error + KBarState) \<times> World"

definition setState :: "updater \<Rightarrow> World \<Rightarrow> error option \<times> World" where
  "setState u w =
     (case u (state w) w of
        (Inl e, w') \<Rightarrow> (Some e, w')
      | (Inr st', w') \<Rightarrow> (None, w'\<lparr>state := st'\<rparr>))"

definition getState :: "World \<Rightarrow> KBarState" where
  "getState w = state w"

definition setCurrentRootAction :: "ActionId option \<Rightarrow> World \<Rightarrow> error option \<times> World" where
  "setCurrentRootAction actionId =
     setState (\<lambda>st w. (Inr (st\<lparr>currentRootActionId := actionId\<rparr>), w))"

text \<open>\<^verbatim>\<open>setVisualState\<close> takes a literal value or a function of the old value.\<close>

datatype visualUpdate = Literal VisualState | Callback "VisualState \<Rightarrow> VisualState"

definition setVisualState :: "visualUpdate \<Rightarrow> World \<Rightarrow> error option \<times> World" where
  "setVisualState cb =
     setState (\<lambda>st w.
       (Inr (st\<lparr>visualState :=
                 (case cb of Callback f \<Rightarrow> f (visualState st) | Literal v \<Rightarrow> v)\<rparr>), w))"

definition setSearch :: "string \<Rightarrow> World \<Rightarrow> error option \<times> World" where
  "setSearch q = setState (\<lambda>st w. (Inr (st\<lparr>searchQuery := q\<rparr>), w))"

definition toggle :: "World \<Rightarrow> error option \<times> World" where
  "toggle =
     setState (\<lambda>st w.
       (Inr (st\<lparr>visualState :=
                 (if visualState st \<in> set [animatingOut, hidden]
                  then animatingIn else animatingOut)\<rparr>), w))"

section \<open>The action registry\<close>

text \<open>
  JavaScript truthiness of \<^verbatim>\<open>action.parent\<close>: \<^verbatim>\<open>null\<close>, \<^verbatim>\<open>undefined\<close> and the
  empty string are falsy; \<open>truthy\<close> returns the parent id when the test passes.
\<close>

definition truthy :: "ActionId option \<Rightarrow> ActionId option" where
  "truthy p = (case p of None \<Rightarrow> None | Some s \<Rightarrow> if s = [] then None else Some s)"

text \<open>
  The names under which every plain object inherits a built-in function from
  \<^verbatim>\<open>Object.prototype\<close>. The twelfth inherited name, \<^verbatim>\<open>__proto__\<close>, is an accessor.
\<close>

definition inherited_names :: "string list" where
  "inherited_names =
     [''constructor'', ''__defineGetter__'', ''__defineSetter__'', ''hasOwnProperty'',
      ''__lookupGetter__'', ''__lookupSetter__'', ''isPrototypeOf'',
      ''propertyIsEnumerable'', ''toString'', ''valueOf'', ''toLocaleString'']"

text \<open>
  What \<^verbatim>\<open>dictionary[key]\<close> reads: the \<^verbatim>\<open>Action\<close> the dictionary holds under the
  key; else the built-in function inherited under that name; else, for
  \<^verbatim>\<open>__proto__\<close>, the prototype \<^verbatim>\<open>Object.prototype\<close>; else \<^verbatim>\<open>undefined\<close>. All but the
  last are truthy.
\<close>

datatype found = Own aref | Inherited string | ObjectPrototype | Undefined

definition lookup :: "ActionTree \<Rightarrow> ActionId \<Rightarrow> found" where
  "lookup d k =
     (case d k of
        Some r \<Rightarrow> Own r
      | None \<Rightarrow>
          if k = ''__proto__'' then ObjectPrototype
          else if k \<in> set inherited_names then Inherited k
          else Undefined)"

text \<open>
  \<^verbatim>\<open>actions.reduce((acc, curr) => { acc[curr.id] = curr; return acc; }, {})\<close>:
  a later action of the batch with the same id replaces an earlier one. For the id
  \<^verbatim>\<open>__proto__\<close> the assignment adds no key: it makes \<^verbatim>\<open>curr\<close> the prototype of
  \<^verbatim>\<open>acc\<close>. \<open>actionsByKey\<close> is the map of the keys that \<^verbatim>\<open>acc\<close> holds itself, and
  \<open>replaces_prototype\<close> tells whether the prototype of \<^verbatim>\<open>acc\<close> has been replaced.
\<close>

definition actionsByKey :: "(aref \<Rightarrow> Action) \<Rightarrow> aref list \<Rightarrow> ActionTree" where
  "actionsByKey h acts =
     foldl (\<lambda>acc curr.
              if action_id (h curr) = ''__proto__'' then acc
              else acc(action_id (h curr) \<mapsto> curr))
       Map.empty acts"

definition replaces_prototype :: "(aref \<Rightarrow> Action) \<Rightarrow> aref list \<Rightarrow> bool" where
  "replaces_prototype h acts = (''__proto__'' \<in> set (map (\<lambda>curr. action_id (h curr)) acts))"

text \<open>
  \<^verbatim>\<open>state.actions[id] || actionsByKey[id]\<close>: whatever the committed dictionary
  reads, if truthy; else what the batch holds under the id. When the batch does not
  hold the id and its prototype has been replaced by an \<^verbatim>\<open>Action\<close>, the read
  continues in the fields of that \<^verbatim>\<open>Action\<close>, which the embedding does not follow.
\<close>

definition resolve :: "ActionTree \<Rightarrow> ActionTree \<Rightarrow> bool \<Rightarrow> ActionId \<Rightarrow> error + found" where
  "resolve committed incoming replaced p =
     (case lookup committed p of
        Undefined \<Rightarrow>
          (case incoming p of
             Some r \<Rightarrow> Inr (Own r)
           | None \<Rightarrow> if replaced then Inl Untracked else Inr Undefined)
      | Own r \<Rightarrow> Inr (Own r)
      | Inherited n \<Rightarrow> Inr (Inherited n)
      | ObjectPrototype \<Rightarrow> Inr ObjectPrototype)"

definition not_exist :: "ActionId \<Rightarrow> error" where
  "not_exist p = Error (''Action of id '' @ p @ '' does not exist.'')"

text \<open>
  The body of \<^verbatim>\<open>actions.forEach((action) => ...)\<close> in \<^verbatim>\<open>registerActions\<close>. It
  returns the exception thrown, if any, and the world as the body leaves it. The
  parent is an \<^verbatim>\<open>Action\<close> or a built-in function; in both cases the code creates
  \<^verbatim>\<open>children\<close> when it is missing and pushes the id unless it is included. A parent
  that is \<^verbatim>\<open>Object.prototype\<close> would give every object a \<^verbatim>\<open>children\<close> array.
\<close>

definition register_step ::
  "ActionTree \<Rightarrow> ActionTree \<Rightarrow> bool \<Rightarrow> aref \<Rightarrow> World \<Rightarrow> error option \<times> World" where
  "register_step committed incoming replaced a w =
     (case truthy (parent (heap w a)) of
        None \<Rightarrow> (None, w)
      | Some p \<Rightarrow>
          (case resolve committed incoming replaced p of
             Inl e \<Rightarrow> (Some e, w)
           | Inr Undefined \<Rightarrow> (Some (not_exist p), w)
           | Inr ObjectPrototype \<Rightarrow> (Some Untracked, w)
           | Inr (Own pr) \<Rightarrow>
               (let h1 = (case children (heap w pr) of
                            None \<Rightarrow> (heap w)(pr := (heap w pr)\<lparr>children := Some []\<rparr>)
                          | Some cs \<Rightarrow> heap w);
                    cs = (case children (h1 pr) of None \<Rightarrow> [] | Some cs \<Rightarrow> cs)
                in if action_id (h1 a) \<in> set cs then (None, w\<lparr>heap := h1\<rparr>)
                   else (None, w\<lparr>heap := h1(pr := (h1 pr)
                                 \<lparr>children := Some (cs @ [action_id (h1 a)])\<rparr>)\<rparr>))
           | Inr (Inherited n) \<Rightarrow>
               (let b1 = (case builtins w n of
                            None \<Rightarrow> (builtins w)(n := Some [])
                          | Some cs \<Rightarrow> builtins w);
                    cs = (case b1 n of None \<Rightarrow> [] | Some cs \<Rightarrow> cs)
                in if action_id (heap w a) \<in> set cs then (None, w\<lparr>builtins := b1\<rparr>)
                   else (None, w\<lparr>builtins := b1(n := Some (cs @ [action_id (heap w a)]))\<rparr>))))"

text \<open>\<^verbatim>\<open>forEach\<close>: the first exception ends the loop; earlier mutations stay.\<close>

fun register_loop ::
  "ActionTree \<Rightarrow> ActionTree \<Rightarrow> bool \<Rightarrow> aref list \<Rightarrow> World \<Rightarrow> error option \<times> World" where
  "register_loop committed incoming replaced [] w = (None, w)"
| "register_loop committed incoming replaced (a # as) w =
     (case register_step committed incoming replaced a w of
        (Some e, w') \<Rightarrow> (Some e, w')
      | (None, w') \<Rightarrow> register_loop committed incoming replaced as w')"

text \<open>
  \<^verbatim>\<open>registerActions(actions)\<close>: the batch is a list of addresses of the caller's
  \<^verbatim>\<open>Action\<close> objects. On success the updater returns a snapshot whose \<^verbatim>\<open>actions\<close> is
  the freshly allocated dictionary \<^verbatim>\<open>{...actionsByKey, ...state.actions}\<close>: it holds
  the keys that either dictionary holds itself, the committed entries win, and its
  prototype is \<^verbatim>\<open>Object.prototype\<close>.
\<close>

definition registerActions :: "aref list \<Rightarrow> World \<Rightarrow> error option \<times> World" where
  "registerActions acts w0 =
     (let incoming = actionsByKey (heap w0) acts;
          replaced = replaces_prototype (heap w0) acts
      in setState (\<lambda>st w.
        (case register_loop (trees w (actions st)) incoming replaced acts w of
           (Some e, w') \<Rightarrow> (Inl e, w')
         | (None, w') \<Rightarrow>
             (Inr (st\<lparr>actions := next_tree w'\<rparr>),
              w'\<lparr>trees := (trees w')(next_tree w' := incoming ++ trees w' (actions st)),
                 next_tree := Suc (next_tree w')\<rparr>))) w0)"

text \<open>\<^verbatim>\<open>delete allActions[actionId]\<close>, on the dictionary at address \<open>t\<close>.\<close>

definition delete_action :: "tref \<Rightarrow> ActionId \<Rightarrow> World \<Rightarrow> World" where
  "delete_action t actionId w = w\<lparr>trees := (trees w)(t := (trees w t)(actionId := None))\<rparr>"

text \<open>
  The body of \<^verbatim>\<open>removeActionIds.forEach((actionId) => ...)\<close> in \<^verbatim>\<open>unregister\<close>.
  \<open>t\<close> is the address of \<^verbatim>\<open>state.actions\<close>, which is also \<^verbatim>\<open>allActions\<close>. Only an
  \<^verbatim>\<open>Action\<close> has a \<^verbatim>\<open>parent\<close>. The results \<open>w\<close> are the \<^verbatim>\<open>return\<close> inside
  \<^verbatim>\<open>if (!parent?.children)\<close>: it leaves the callback before \<^verbatim>\<open>delete\<close>.
\<close>

definition unregister_step :: "tref \<Rightarrow> ActionId \<Rightarrow> World \<Rightarrow> World" where
  "unregister_step t actionId w =
     (let action = lookup (trees w t) actionId in
      case truthy (case action of Own a \<Rightarrow> parent (heap w a) | _ \<Rightarrow> None) of
        Some p \<Rightarrow>
          (case lookup (trees w t) p of
             Undefined \<Rightarrow> w
           | ObjectPrototype \<Rightarrow> w
           | Own pr \<Rightarrow>
               (case children (heap w pr) of
                  None \<Rightarrow> w
                | Some cs \<Rightarrow>
                    delete_action t actionId
                      (w\<lparr>heap := (heap w)(pr := (heap w pr)
                            \<lparr>children := Some (filter (\<lambda>child. child \<noteq> actionId) cs)\<rparr>)\<rparr>))
           | Inherited n \<Rightarrow>
               (case builtins w n of
                  None \<Rightarrow> w
                | Some cs \<Rightarrow>
                    delete_action t actionId
                      (w\<lparr>builtins := (builtins w)
                            (n := Some (filter (\<lambda>child. child \<noteq> actionId) cs))\<rparr>)))
      | None \<Rightarrow> delete_action t actionId w)"

text \<open>
  The closure returned by \<^verbatim>\<open>registerActions(actions)\<close>. The updater returns
  \<^verbatim>\<open>{...state, actions: allActions}\<close>: a new snapshot that refers to the same
  dictionary, edited in place.
\<close>

definition unregister :: "aref list \<Rightarrow> World \<Rightarrow> error option \<times> World" where
  "unregister acts =
     setState (\<lambda>st w.
       (let allActions = actions st;
            removeActionIds = map (\<lambda>action. action_id (heap w action)) acts
        in (Inr (st\<lparr>actions := allActions\<rparr>),
            fold (unregister_step allActions) removeActionIds w)))"

section \<open>Publisher and Subscriber\<close>

text \<open>
  The content of a derived value (of what a selector returns) is first-order
  JavaScript data: \<^verbatim>\<open>undefined\<close>, \<^verbatim>\<open>null\<close>, booleans, numbers, strings, arrays and
  plain objects.
\<close>

datatype jsval =
    JUndefined
  | JNull
  | JBool bool
  | JNum int
  | JStr string
  | JArr "jsval list"
  | JObj "(string, jsval) fmap"

text \<open>
  Modelled from the spec: \<^verbatim>\<open>deepEqual\<close> comes from the package \<^verbatim>\<open>fast-equals\<close>,
  which is not among the source files. The spec describes it as deep structural
  equality, sequences compared in order and mappings by key and value whatever the
  insertion order. On \<open>jsval\<close>, whose arrays are lists and whose objects are finite
  maps, that is equality of the representation.
\<close>

definition deepEqual :: "jsval \<Rightarrow> jsval \<Rightarrow> bool" where
  "deepEqual a b = (a = b)"

text \<open>
  What a selector returns is a reference, and \<^verbatim>\<open>this.collected = recollect\<close> stores
  that reference. It may point into the store (\<^verbatim>\<open>state => state.actions\<close> returns
  the committed dictionary itself), and the registry edits the dictionary and the
  \<^verbatim>\<open>Action\<close> objects in place; so what a stored reference reads as depends on the
  world in which it is read. A \<open>derived\<close> value is therefore a function of the world:
  \<open>v w\<close> is the content of the reference \<open>v\<close> read in the world \<open>w\<close>. A selector that
  builds fresh data returns a constant function.
\<close>

type_synonym derived = "World \<Rightarrow> jsval"

text \<open>
  A \<^verbatim>\<open>Subscriber\<close> holds the last collected reference, the thunk
  \<^verbatim>\<open>() => collector(this.getState())\<close>, which reads the world and may throw, and the
  callback \<^verbatim>\<open>onChange\<close>, which may be missing and may throw; the callback is given
  the content that the reference has when it is called. What a selector or a
  callback does to the list of subscribers while it runs is described apart, by a
  \<open>reentry\<close> (below).
\<close>

record Subscriber =
  collected :: derived
  collector :: "World \<Rightarrow> error + derived"
  onChange :: "(jsval \<Rightarrow> error option) option"

text \<open>The constructor leaves the field \<^verbatim>\<open>collected\<close> unassigned: it reads \<^verbatim>\<open>undefined\<close>.\<close>

definition new_Subscriber ::
  "(World \<Rightarrow> error + derived) \<Rightarrow> (jsval \<Rightarrow> error option) option \<Rightarrow> Subscriber" where
  "new_Subscriber c f = \<lparr>collected = (\<lambda>w. JUndefined), collector = c, onChange = f\<rparr>"

text \<open>What a subscriber does that others can see: a call of \<^verbatim>\<open>onChange\<close>, a \<^verbatim>\<open>console.warn\<close>.\<close>

datatype event = Invoked jsval | Warned error

text \<open>
  The \<^verbatim>\<open>try\<close> block of \<^verbatim>\<open>collect()\<close>: the exception that leaves it, if any.
  \<^verbatim>\<open>deepEqual\<close> compares what the two references read now, in the world \<open>w\<close>.
\<close>

definition collect_try :: "World \<Rightarrow> Subscriber \<Rightarrow> error option \<times> Subscriber \<times> event list" where
  "collect_try w s =
     (case collector s w of
        Inl e \<Rightarrow> (Some e, s, [])
      | Inr recollect \<Rightarrow>
          if \<not> deepEqual (recollect w) (collected s w) then
            (let s' = s\<lparr>collected := recollect\<rparr> in
             case onChange s' of
               None \<Rightarrow> (None, s', [])
             | Some f \<Rightarrow> (f (collected s' w), s', [Invoked (collected s' w)]))
          else (None, s, []))"

text \<open>\<^verbatim>\<open>collect()\<close>: the \<^verbatim>\<open>catch\<close> clause logs the exception.\<close>

definition collect :: "World \<Rightarrow> Subscriber \<Rightarrow> error option \<times> Subscriber \<times> event list" where
  "collect w s =
     (case collect_try w s of
        (Some e, s', log) \<Rightarrow> (None, s', log @ [Warned e])
      | (None, s', log) \<Rightarrow> (None, s', log))"








text \<open>
  \<^verbatim>\<open>subscribe(collector, onChange)\<close> appends a new subscriber whose thunk applies
  the selector to the latest committed snapshot.
\<close>

definition subscribe ::
  "(KBarState \<Rightarrow> World \<Rightarrow> error + derived) \<Rightarrow> (jsval \<Rightarrow> error option) option \<Rightarrow>
   Subscriber list \<Rightarrow> Subscriber list" where
  "subscribe sel f subscribers =
     subscribers @ [new_Subscriber (\<lambda>w. sel (getState w) w) f]"

text \<open>
  The effect hook of \<^verbatim>\<open>useStore\<close> runs \<^verbatim>\<open>publisher.notify()\<close> after a commit;
  commits and notification passes are kept apart here, a pass being \<open>notify\<close> on the
  world the commit has produced.
\<close>

section \<open>Construction\<close>

text \<open>
  \<^verbatim>\<open>useStore(props)\<close> throws when \<^verbatim>\<open>props.actions\<close> is missing. Otherwise the first
  snapshot has an empty query, no root action, the visual state \<^verbatim>\<open>hidden\<close> and the
  dictionary built from \<^verbatim>\<open>props.actions\<close> (no \<^verbatim>\<open>children\<close> are linked here). In a
  fresh world no built-in function has \<^verbatim>\<open>children\<close>. An action with the id
  \<^verbatim>\<open>__proto__\<close> would replace the prototype of the first dictionary.
\<close>

definition init_world :: "(aref \<Rightarrow> Action) \<Rightarrow> aref list \<Rightarrow> World" where
  "init_world h acts =
     \<lparr>heap = h,
      builtins = (\<lambda>n. None),
      trees = (\<lambda>t. Map.empty)(0 := actionsByKey h acts),
      next_tree = 1,
      state = \<lparr>searchQuery = '''', currentRootActionId = None,
               visualState = hidden, actions = 0\<rparr>\<rparr>"

definition useStore :: "(aref \<Rightarrow> Action) \<Rightarrow> aref list option \<Rightarrow> error + World" where
  "useStore h props_actions =
     (case props_actions of
        None \<Rightarrow> Inl (Error ''You must define a list of `actions` when calling KBarProvider'')
      | Some acts \<Rightarrow>
          if replaces_prototype h acts then Inl Untracked else Inr (init_world h acts))"

section \<open>Vocabulary of the properties\<close>

text \<open>
  \<open>extends old new\<close>: a \<^verbatim>\<open>children\<close> array has only been appended to (and an absent
  array may have been created).
\<close>

definition extends :: "ActionId list option \<Rightarrow> ActionId list option \<Rightarrow> bool" where
  "extends old new =
     (case old of
        None \<Rightarrow> True
      | Some cs \<Rightarrow> (case new of None \<Rightarrow> False | Some ds \<Rightarrow> take (length cs) ds = cs))"

text \<open>Two states of an \<^verbatim>\<open>Action\<close> object that differ at most in \<^verbatim>\<open>children\<close>.\<close>

definition same_but_children :: "Action \<Rightarrow> Action \<Rightarrow> bool" where
  "same_but_children old new =
     (action_id new = action_id old \<and> name new = name old \<and> parent new = parent old)"




text \<open>
  What the body of the linking loop does at one action, read off the dictionaries
  alone: the exception it throws (or the mark \<open>Untracked\<close>), if any. \<open>first_failure\<close>
  is the first one in batch order, and \<open>reached\<close> is the part of the batch that the
  loop has completed when it stops.
\<close>

definition failure ::
  "ActionTree \<Rightarrow> ActionTree \<Rightarrow> bool \<Rightarrow> (aref \<Rightarrow> Action) \<Rightarrow> aref \<Rightarrow> error option" where
  "failure committed incoming replaced h a =
     (case truthy (parent (h a)) of
        None \<Rightarrow> None
      | Some p \<Rightarrow>
          (case resolve committed incoming replaced p of
             Inl e \<Rightarrow> Some e
           | Inr Undefined \<Rightarrow> Some (not_exist p)
           | Inr ObjectPrototype \<Rightarrow> Some Untracked
           | Inr (Own pr) \<Rightarrow> None
           | Inr (Inherited n) \<Rightarrow> None))"

fun first_failure ::
  "ActionTree \<Rightarrow> ActionTree \<Rightarrow> bool \<Rightarrow> (aref \<Rightarrow> Action) \<Rightarrow> aref list \<Rightarrow> error option" where
  "first_failure committed incoming replaced h [] = None"
| "first_failure committed incoming replaced h (a # as) =
     (case failure committed incoming replaced h a of
        Some e \<Rightarrow> Some e
      | None \<Rightarrow> first_failure committed incoming replaced h as)"

definition reached ::
  "ActionTree \<Rightarrow> ActionTree \<Rightarrow> bool \<Rightarrow> (aref \<Rightarrow> Action) \<Rightarrow> aref list \<Rightarrow> aref list" where
  "reached committed incoming replaced h acts =
     takeWhile (\<lambda>a. failure committed incoming replaced h a = None) acts"

text \<open>
  \<open>targets\<close>: the parent of the action at \<open>a\<close> resolves to the \<^verbatim>\<open>Action\<close> object at
  \<open>x\<close>. \<open>push_new\<close> is \<^verbatim>\<open>children\<close> after the id \<open>k\<close> has been linked. \<open>children_after\<close>
  is the \<^verbatim>\<open>children\<close> of the object at \<open>x\<close> once the actions of a list have been
  linked, in order, starting from \<open>cur\<close>: only the actions that target \<open>x\<close> count, and
  each adds its id unless it is included.
\<close>

definition targets ::
  "ActionTree \<Rightarrow> ActionTree \<Rightarrow> bool \<Rightarrow> (aref \<Rightarrow> Action) \<Rightarrow> aref \<Rightarrow> aref \<Rightarrow> bool" where
  "targets committed incoming replaced h a x =
     (case truthy (parent (h a)) of
        None \<Rightarrow> False
      | Some p \<Rightarrow> resolve committed incoming replaced p = Inr (Own x))"

definition push_new :: "ActionId \<Rightarrow> ActionId list option \<Rightarrow> ActionId list" where
  "push_new k cur =
     (case cur of
        None \<Rightarrow> [k]
      | Some cs \<Rightarrow> if k \<in> set cs then cs else cs @ [k])"

fun children_after ::
  "ActionTree \<Rightarrow> ActionTree \<Rightarrow> bool \<Rightarrow> (aref \<Rightarrow> Action) \<Rightarrow> aref list \<Rightarrow> aref \<Rightarrow>
   ActionId list option \<Rightarrow> ActionId list option" where
  "children_after committed incoming replaced h [] x cur = cur"
| "children_after committed incoming replaced h (a # as) x cur =
     children_after committed incoming replaced h as x
       (if targets committed incoming replaced h a x
        then Some (push_new (action_id (h a)) cur) else cur)"





text \<open>
  What a reader holding the snapshot \<open>st\<close> sees in the world \<open>w\<close>: the three plain
  fields, and for every id the \<^verbatim>\<open>Action\<close> object that the dictionary of \<open>st\<close> holds
  under it.
\<close>

definition observe ::
  "World \<Rightarrow> KBarState \<Rightarrow> string \<times> ActionId option \<times> VisualState \<times> (ActionId \<rightharpoonup> Action)" where
  "observe w st =
     (searchQuery st, currentRootActionId st, visualState st,
      \<lambda>k. map_option (heap w) (trees w (actions st) k))"

section \<open>Example stores\<close>

definition action :: "ActionId \<Rightarrow> ActionId option \<Rightarrow> ActionId list option \<Rightarrow> Action" where
  "action i p cs = \<lparr>action_id = i, name = i, parent = p, children = cs\<rparr>"

text \<open>
  Ten \<^verbatim>\<open>Action\<close> objects: \<^verbatim>\<open>a\<close>; \<^verbatim>\<open>b\<close> with parent \<^verbatim>\<open>a\<close>; \<^verbatim>\<open>c\<close> whose parent
  \<^verbatim>\<open>zzz\<close> is nowhere; \<^verbatim>\<open>e\<close> whose parent is the empty string; \<^verbatim>\<open>d\<close> that arrives
  with the children \<^verbatim>\<open>["f", "f"]\<close>; \<^verbatim>\<open>f\<close> with parent \<^verbatim>\<open>d\<close>; a second object with
  the id \<^verbatim>\<open>a\<close>; \<^verbatim>\<open>k\<close> and \<^verbatim>\<open>z\<close> with parent \<^verbatim>\<open>toString\<close>; an action whose id is
  \<^verbatim>\<open>toString\<close>. Every other address holds an action whose id is the empty string.
\<close>

definition ex_heap :: "aref \<Rightarrow> Action" where
  "ex_heap =
     (\<lambda>r. action '''' None None)
       (0 := action ''a'' None None,
        1 := action ''b'' (Some ''a'') None,
        2 := action ''c'' (Some ''zzz'') None,
        3 := action ''e'' (Some '''') None,
        4 := action ''d'' None (Some [''f'', ''f'']),
        5 := action ''f'' (Some ''d'') None,
        6 := action ''a'' None (Some [''x'']),
        8 := action ''k'' (Some ''toString'') None,
        9 := action ''toString'' None None,
        10 := action ''z'' (Some ''toString'') None)"

text \<open>A fresh store constructed with the actions at the given addresses.\<close>

definition ex_world :: "aref list \<Rightarrow> World" where
  "ex_world acts = init_world ex_heap acts"


lemmas ex_defs =
  ex_world_def init_world_def ex_heap_def action_def registerActions_def unregister_def
  setState_def actionsByKey_def replaces_prototype_def register_step_def resolve_def
  lookup_def inherited_names_def truthy_def not_exist_def
  unregister_step_def delete_action_def Let_def

section \<open>Lemmas on the registry\<close>

subsection \<open>What the linking loop leaves alone, and when it throws\<close>

lemma extends_refl [simp]: "extends c c"
  by (simp add: extends_def split: option.splits)

lemma extends_trans: "extends a b \<Longrightarrow> extends b c \<Longrightarrow> extends a c"
proof (cases a)
  case None
  then show ?thesis by (simp add: extends_def)
next
  case (Some cs)
  assume ab: "extends a b" and bc: "extends b c"
  from ab Some obtain ds where b: "b = Some ds" and 1: "take (length cs) ds = cs"
    by (auto simp: extends_def split: option.splits)
  from bc b obtain es where c: "c = Some es" and 2: "take (length ds) es = ds"
    by (auto simp: extends_def split: option.splits)
  from arg_cong [OF 1, of length] have "length cs \<le> length ds"
    by simp
  then have "take (length cs) (take (length ds) es) = take (length cs) es"
    by (simp add: min_def)
  with 1 2 have "take (length cs) es = cs" by simp
  with Some c show ?thesis by (simp add: extends_def)
qed

lemma register_step_frame:
  assumes "register_step c i rep a w = (r, w')"
  shows "same_but_children (heap w x) (heap w' x) \<and>
         extends (children (heap w x)) (children (heap w' x)) \<and>
         extends (builtins w n) (builtins w' n) \<and>
         trees w' = trees w \<and> next_tree w' = next_tree w \<and> state w' = state w"
  using assms
  by (auto simp: register_step_def same_but_children_def extends_def Let_def
      split: option.splits if_splits sum.splits found.splits)

lemma register_loop_frame:
  "register_loop c i rep acts w = (r, w') \<Longrightarrow>
   same_but_children (heap w x) (heap w' x) \<and>
   extends (children (heap w x)) (children (heap w' x)) \<and>
   extends (builtins w n) (builtins w' n) \<and>
   trees w' = trees w \<and> next_tree w' = next_tree w \<and> state w' = state w"
proof (induction acts arbitrary: w)
  case Nil
  then show ?case by (simp add: same_but_children_def)
next
  case (Cons a as)
  obtain r1 w1 where s: "register_step c i rep a w = (r1, w1)"
    by (cases "register_step c i rep a w") auto
  note f = register_step_frame [OF s, of x n]
  show ?case
  proof (cases r1)
    case None
    with Cons.prems s have "register_loop c i rep as w1 = (r, w')" by simp
    from Cons.IH [OF this] have g: "same_but_children (heap w1 x) (heap w' x)"
      and e: "extends (children (heap w1 x)) (children (heap w' x))"
      and b: "extends (builtins w1 n) (builtins w' n)"
      and t: "trees w' = trees w1" "next_tree w' = next_tree w1" "state w' = state w1"
      by simp_all
    from f g have "same_but_children (heap w x) (heap w' x)"
      by (simp add: same_but_children_def)
    moreover from f e have "extends (children (heap w x)) (children (heap w' x))"
      by (blast intro: extends_trans)
    moreover from f b have "extends (builtins w n) (builtins w' n)"
      by (blast intro: extends_trans)
    ultimately show ?thesis using f t by simp
  next
    case (Some e)
    with Cons.prems s have "w' = w1" by simp
    with f show ?thesis by simp
  qed
qed

lemma failure_frame:
  "parent (h' a) = parent (h a) \<Longrightarrow> failure c i rep h' a = failure c i rep h a"
  by (simp add: failure_def)

lemma first_failure_frame:
  "(\<And>a. parent (h' a) = parent (h a)) \<Longrightarrow>
   first_failure c i rep h' acts = first_failure c i rep h acts"
  by (induction acts) (simp_all add: failure_frame [of h' _ h] split: option.splits)

lemma register_step_error:
  "fst (register_step c i rep a w) = failure c i rep (heap w) a"
  by (simp add: register_step_def failure_def Let_def
      split: option.splits sum.splits found.splits)

lemma register_step_failed:
  "fst (register_step c i rep a w) = Some e \<Longrightarrow> snd (register_step c i rep a w) = w"
  by (auto simp: register_step_def Let_def
      split: option.splits sum.splits found.splits if_splits)

lemma register_loop_error:
  "fst (register_loop c i rep acts w) = first_failure c i rep (heap w) acts"
proof (induction acts arbitrary: w)
  case Nil
  show ?case by simp
next
  case (Cons a as)
  obtain r1 w1 where s: "register_step c i rep a w = (r1, w1)"
    by (cases "register_step c i rep a w") auto
  from register_step_error [of c i rep a w] s
  have r1: "r1 = failure c i rep (heap w) a" by simp
  show ?case
  proof (cases "failure c i rep (heap w) a")
    case None
    have "\<And>b. parent (heap w1 b) = parent (heap w b)"
      using register_step_frame [OF s] by (simp add: same_but_children_def)
    then have "first_failure c i rep (heap w1) as = first_failure c i rep (heap w) as"
      by (rule first_failure_frame)
    with None r1 s Cons.IH [of w1] show ?thesis by simp
  next
    case (Some e)
    with r1 s show ?thesis by simp
  qed
qed

lemma first_failure_None:
  "first_failure c i rep h acts = None \<longleftrightarrow> (\<forall>a \<in> set acts. failure c i rep h a = None)"
  by (induction acts) (auto split: option.splits)









subsection \<open>The children after the loop\<close>

lemma targets_frame:
  "parent (h' a) = parent (h a) \<Longrightarrow> targets c i rep h' a x = targets c i rep h a x"
  by (simp add: targets_def)

lemma children_after_frame:
  assumes "\<And>b. parent (h' b) = parent (h b)" and "\<And>b. action_id (h' b) = action_id (h b)"
  shows "children_after c i rep h' acts x cur = children_after c i rep h acts x cur"
  by (induction acts arbitrary: cur) (simp_all add: assms targets_frame [of h' _ h])

lemma reached_frame:
  assumes "\<And>b. parent (h' b) = parent (h b)"
  shows "reached c i rep h' acts = reached c i rep h acts"
  by (simp add: reached_def failure_frame [of h' _ h] assms)

lemma register_step_children:
  "children (heap (snd (register_step c i rep a w)) x) =
     (if targets c i rep (heap w) a x
      then Some (push_new (action_id (heap w a)) (children (heap w x)))
      else children (heap w x))"
  by (auto simp: register_step_def targets_def push_new_def Let_def
      split: option.splits sum.splits found.splits)

lemma register_loop_children:
  "children (heap (snd (register_loop c i rep acts w)) x) =
     children_after c i rep (heap w) (reached c i rep (heap w) acts) x (children (heap w x))"
proof (induction acts arbitrary: w)
  case Nil
  show ?case by (simp add: reached_def)
next
  case (Cons a as)
  obtain r1 w1 where s: "register_step c i rep a w = (r1, w1)"
    by (cases "register_step c i rep a w") auto
  from register_step_error [of c i rep a w] s
  have r1: "r1 = failure c i rep (heap w) a" by simp
  show ?case
  proof (cases r1)
    case (Some e)
    with s register_step_failed [of c i rep a w e] have "w1 = w" by simp
    with Some s r1 show ?thesis by (simp add: reached_def)
  next
    case None
    have p: "\<And>b. parent (heap w1 b) = parent (heap w b)"
      and d: "\<And>b. action_id (heap w1 b) = action_id (heap w b)"
      using register_step_frame [OF s] by (simp_all add: same_but_children_def)
    from register_step_children [of c i rep a w x] s
    have c1: "children (heap w1 x) =
        (if targets c i rep (heap w) a x
         then Some (push_new (action_id (heap w a)) (children (heap w x)))
         else children (heap w x))" by simp
    have "children (heap (snd (register_loop c i rep as w1)) x) =
        children_after c i rep (heap w) (reached c i rep (heap w) as) x (children (heap w1 x))"
      by (simp add: Cons.IH [of w1] children_after_frame [OF p d] reached_frame [OF p])
    with None s r1 c1 show ?thesis by (simp add: reached_def)
  qed
qed

lemma reached_all:
  "first_failure c i rep h acts = None \<Longrightarrow> reached c i rep h acts = acts"
  by (simp add: reached_def first_failure_None)

subsection \<open>What the loop links\<close>













subsection \<open>\<^verbatim>\<open>registerActions\<close> as a whole\<close>

lemma registerActions_unfold:
  "registerActions acts w =
     (case register_loop (trees w (actions (state w))) (actionsByKey (heap w) acts)
             (replaces_prototype (heap w) acts) acts w of
        (Some e, w') \<Rightarrow> (Some e, w')
      | (None, w') \<Rightarrow>
          (None, w'\<lparr>trees := (trees w')(next_tree w' :=
                      actionsByKey (heap w) acts ++ trees w' (actions (state w))),
                    next_tree := Suc (next_tree w'),
                    state := (state w)\<lparr>actions := next_tree w'\<rparr>\<rparr>))"
  by (simp add: registerActions_def setState_def Let_def split: prod.splits option.splits)

lemma registerActions_error:
  "fst (registerActions acts w) =
     first_failure (trees w (actions (state w))) (actionsByKey (heap w) acts)
       (replaces_prototype (heap w) acts) (heap w) acts"
proof -
  let ?l = "register_loop (trees w (actions (state w))) (actionsByKey (heap w) acts)
      (replaces_prototype (heap w) acts) acts w"
  have "fst (registerActions acts w) = fst ?l"
    by (simp add: registerActions_unfold split: prod.splits option.splits)
  then show ?thesis by (simp add: register_loop_error)
qed

lemma registerActions_store:
  "heap (snd (registerActions acts w)) =
     heap (snd (register_loop (trees w (actions (state w))) (actionsByKey (heap w) acts)
       (replaces_prototype (heap w) acts) acts w)) \<and>
   builtins (snd (registerActions acts w)) =
     builtins (snd (register_loop (trees w (actions (state w))) (actionsByKey (heap w) acts)
       (replaces_prototype (heap w) acts) acts w))"
  by (simp add: registerActions_unfold split: prod.splits option.splits)

lemma registerActions_frame:
  "same_but_children (heap w x) (heap (snd (registerActions acts w)) x) \<and>
   extends (children (heap w x)) (children (heap (snd (registerActions acts w)) x)) \<and>
   extends (builtins w n) (builtins (snd (registerActions acts w)) n)"
proof -
  obtain r w' where l: "register_loop (trees w (actions (state w)))
      (actionsByKey (heap w) acts) (replaces_prototype (heap w) acts) acts w = (r, w')"
    by (cases "register_loop (trees w (actions (state w)))
      (actionsByKey (heap w) acts) (replaces_prototype (heap w) acts) acts w") auto
  from register_loop_frame [OF l, of x n] l show ?thesis
    by (simp add: registerActions_store)
qed

lemma registerActions_children:
  "children (heap (snd (registerActions acts w)) x) =
     children_after (trees w (actions (state w))) (actionsByKey (heap w) acts)
       (replaces_prototype (heap w) acts) (heap w)
       (reached (trees w (actions (state w))) (actionsByKey (heap w) acts)
          (replaces_prototype (heap w) acts) (heap w) acts)
       x (children (heap w x))"
  by (simp add: registerActions_store register_loop_children)

lemma registerActions_failed:
  assumes "fst (registerActions acts w) = Some e"
  shows "state (snd (registerActions acts w)) = state w \<and>
         trees (snd (registerActions acts w)) = trees w \<and>
         next_tree (snd (registerActions acts w)) = next_tree w"
proof -
  obtain r w' where l: "register_loop (trees w (actions (state w)))
      (actionsByKey (heap w) acts) (replaces_prototype (heap w) acts) acts w = (r, w')"
    by (cases "register_loop (trees w (actions (state w)))
      (actionsByKey (heap w) acts) (replaces_prototype (heap w) acts) acts w") auto
  from assms l have "snd (registerActions acts w) = w'"
    by (simp add: registerActions_unfold split: option.splits)
  with register_loop_frame [OF l] show ?thesis by simp
qed

lemma registerActions_committed:
  assumes "fst (registerActions acts w) = None"
  shows "state (snd (registerActions acts w)) = (state w)\<lparr>actions := next_tree w\<rparr> \<and>
         trees (snd (registerActions acts w)) =
           (trees w)(next_tree w := actionsByKey (heap w) acts ++ trees w (actions (state w))) \<and>
         next_tree (snd (registerActions acts w)) = Suc (next_tree w)"
proof -
  obtain r w' where l: "register_loop (trees w (actions (state w)))
      (actionsByKey (heap w) acts) (replaces_prototype (heap w) acts) acts w = (r, w')"
    by (cases "register_loop (trees w (actions (state w)))
      (actionsByKey (heap w) acts) (replaces_prototype (heap w) acts) acts w") auto
  from assms l have "r = None"
    by (simp add: registerActions_unfold split: option.splits)
  with l register_loop_frame [OF l] show ?thesis
    by (simp add: registerActions_unfold)
qed





lemma registerActions_keeps_old_tree:
  assumes "t \<noteq> next_tree w"
  shows "trees (snd (registerActions acts w)) t = trees w t"
proof (cases "fst (registerActions acts w)")
  case None
  from registerActions_committed [OF None] assms show ?thesis by simp
next
  case (Some e)
  from registerActions_failed [OF Some] show ?thesis by simp
qed

subsection \<open>\<^verbatim>\<open>unregister\<close>\<close>

lemma truthy_None: "truthy None = None"
  by (simp add: truthy_def)

lemma lookup_own: "lookup d k = Own a \<longleftrightarrow> d k = Some a"
  by (simp add: lookup_def split: option.splits)

lemma delete_absent: "trees w t k = None \<Longrightarrow> delete_action t k w = w"
  by (simp add: delete_action_def fun_upd_idem)

lemma lookup_absent: "d k = None \<Longrightarrow> (case lookup d k of Own a \<Rightarrow> f a | _ \<Rightarrow> None) = None"
  by (simp add: lookup_def)

lemma unregister_step_absent_key:
  "trees w t k = None \<Longrightarrow> unregister_step t k w = w"
  by (simp add: unregister_step_def lookup_absent truthy_None delete_absent)

lemma unregister_step_orphan:
  "trees w t k = Some a \<Longrightarrow> truthy (parent (heap w a)) = None \<Longrightarrow>
   unregister_step t k w = delete_action t k w"
  by (simp add: unregister_step_def lookup_def)

lemma unregister_step_child:
  "trees w t k = Some a \<Longrightarrow> truthy (parent (heap w a)) = Some p \<Longrightarrow>
   unregister_step t k w =
     (case lookup (trees w t) p of
        Undefined \<Rightarrow> w
      | ObjectPrototype \<Rightarrow> w
      | Own pr \<Rightarrow>
          (case children (heap w pr) of
             None \<Rightarrow> w
           | Some cs \<Rightarrow>
               delete_action t k
                 (w\<lparr>heap := (heap w)(pr := (heap w pr)
                       \<lparr>children := Some (filter (\<lambda>child. child \<noteq> k) cs)\<rparr>)\<rparr>))
      | Inherited n \<Rightarrow>
          (case builtins w n of
             None \<Rightarrow> w
           | Some cs \<Rightarrow>
               delete_action t k
                 (w\<lparr>builtins := (builtins w)
                       (n := Some (filter (\<lambda>child. child \<noteq> k) cs))\<rparr>)))"
  by (simp add: unregister_step_def lookup_own [THEN iffD2])

lemma unregister_step_result:
  "unregister_step t k w = w \<or>
   (\<exists>h b. unregister_step t k w = delete_action t k (w\<lparr>heap := h, builtins := b\<rparr>) \<and>
          (\<forall>x. same_but_children (heap w x) (h x) \<and>
               (children (heap w x) = None \<longrightarrow> children (h x) = None)) \<and>
          (\<forall>n. builtins w n = None \<longrightarrow> b n = None))"
proof (cases "trees w t k")
  case None
  then show ?thesis by (simp add: unregister_step_absent_key)
next
  case (Some a)
  show ?thesis
  proof (cases "truthy (parent (heap w a))")
    case None
    with Some have "unregister_step t k w =
        delete_action t k (w\<lparr>heap := heap w, builtins := builtins w\<rparr>)"
      by (simp add: unregister_step_orphan)
    moreover have "same_but_children (heap w x) (heap w x)" for x
      by (simp add: same_but_children_def)
    ultimately show ?thesis by blast
  next
    case p: (Some p)
    note u = unregister_step_child [OF Some p]
    show ?thesis
    proof (cases "lookup (trees w t) p")
      case (Own pr)
      show ?thesis
      proof (cases "children (heap w pr)")
        case None
        with u Own show ?thesis by simp
      next
        case cs: (Some cs)
        let ?h = "(heap w)(pr := (heap w pr)
            \<lparr>children := Some (filter (\<lambda>child. child \<noteq> k) cs)\<rparr>)"
        from u Own cs have "unregister_step t k w =
            delete_action t k (w\<lparr>heap := ?h, builtins := builtins w\<rparr>)"
          by simp
        moreover have "same_but_children (heap w x) (?h x) \<and>
            (children (heap w x) = None \<longrightarrow> children (?h x) = None)" for x
          using cs by (simp add: same_but_children_def)
        ultimately show ?thesis by blast
      qed
    next
      case (Inherited n)
      show ?thesis
      proof (cases "builtins w n")
        case None
        with u Inherited show ?thesis by simp
      next
        case cs: (Some cs)
        let ?b = "(builtins w)(n := Some (filter (\<lambda>child. child \<noteq> k) cs))"
        from u Inherited cs have "unregister_step t k w =
            delete_action t k (w\<lparr>heap := heap w, builtins := ?b\<rparr>)"
          by simp
        moreover have "builtins w m = None \<longrightarrow> ?b m = None" for m
          using cs by simp
        moreover have "same_but_children (heap w x) (heap w x)" for x
          by (simp add: same_but_children_def)
        ultimately show ?thesis by blast
      qed
    next
      case ObjectPrototype
      with u show ?thesis by simp
    next
      case Undefined
      with u show ?thesis by simp
    qed
  qed
qed



lemma unregister_step_frame:
  "same_but_children (heap w x) (heap (unregister_step t k w) x) \<and>
   state (unregister_step t k w) = state w \<and>
   next_tree (unregister_step t k w) = next_tree w"
  using unregister_step_result [of t k w]
  by (auto simp: delete_action_def same_but_children_def)

lemma unregister_step_builtins:
  "builtins w n = None \<Longrightarrow> builtins (unregister_step t k w) n = None"
  using unregister_step_result [of t k w]
  by (auto simp: delete_action_def)






lemma fold_builtins:
  "(\<And>n. builtins w n = None) \<Longrightarrow> builtins (fold (unregister_step t) ks w) n = None"
  by (induction ks arbitrary: w) (simp_all add: unregister_step_builtins)




lemma fold_unregister_frame:
  "same_but_children (heap w x) (heap (fold (unregister_step t) ks w) x) \<and>
   state (fold (unregister_step t) ks w) = state w \<and>
   next_tree (fold (unregister_step t) ks w) = next_tree w"
proof (induction ks arbitrary: w)
  case Nil
  show ?case by (simp add: same_but_children_def)
next
  case (Cons k ks)
  from Cons.IH [of "unregister_step t k w"] unregister_step_frame [of w x t k]
  show ?case by (simp add: same_but_children_def)
qed

lemma unregister_unfold:
  "unregister acts w =
     (None, fold (unregister_step (actions (state w)))
              (map (\<lambda>action. action_id (heap w action)) acts) w)"
proof -
  let ?w = "fold (unregister_step (actions (state w)))
              (map (\<lambda>action. action_id (heap w action)) acts) w"
  have "state ?w = state w" by (simp add: fold_unregister_frame)
  then have "?w\<lparr>state := state w\<rparr> = ?w" by (metis World.surjective World.update_convs(5))
  then show ?thesis
    by (simp add: unregister_def setState_def Let_def)
qed

lemma unregister_frame:
  "same_but_children (heap w x) (heap (snd (unregister acts w)) x) \<and>
   state (snd (unregister acts w)) = state w \<and>
   next_tree (snd (unregister acts w)) = next_tree w"
  by (simp add: unregister_unfold fold_unregister_frame)

subsection \<open>The batch dictionary and the simple updates\<close>

lemma foldl_upd_Some:
  "foldl (\<lambda>acc curr. if f curr = z then acc else acc(f curr \<mapsto> curr)) m acts k = Some r \<Longrightarrow>
   m k = Some r \<or> (r \<in> set acts \<and> f r = k)"
proof (induction acts arbitrary: m)
  case Nil
  then show ?case by simp
next
  case (Cons a acts)
  show ?case
  proof (cases "f a = z")
    case True
    with Cons.prems have "foldl (\<lambda>acc curr. if f curr = z then acc else acc(f curr \<mapsto> curr)) m acts k = Some r"
      by simp
    from Cons.IH [OF this] show ?thesis by auto
  next
    case False
    with Cons.prems have "foldl (\<lambda>acc curr. if f curr = z then acc else acc(f curr \<mapsto> curr))
        (m(f a \<mapsto> a)) acts k = Some r"
      by simp
    from Cons.IH [OF this] show ?thesis by (auto split: if_splits)
  qed
qed

lemma actionsByKey_Some:
  "actionsByKey h acts k = Some r \<Longrightarrow> r \<in> set acts \<and> action_id (h r) = k"
  using foldl_upd_Some [of "\<lambda>b. action_id (h b)" "''__proto__''" Map.empty acts k r]
  by (simp add: actionsByKey_def)

lemma simple_updates:
  "snd (setCurrentRootAction i w) = w\<lparr>state := (state w)\<lparr>currentRootActionId := i\<rparr>\<rparr>"
  "snd (setSearch q w) = w\<lparr>state := (state w)\<lparr>searchQuery := q\<rparr>\<rparr>"
  "snd (setVisualState u w) =
     w\<lparr>state := (state w)\<lparr>visualState :=
       (case u of Callback f \<Rightarrow> f (visualState (state w)) | Literal v \<Rightarrow> v)\<rparr>\<rparr>"
  "snd (toggle w) =
     w\<lparr>state := (state w)\<lparr>visualState :=
       (if visualState (state w) \<in> set [animatingOut, hidden]
        then animatingIn else animatingOut)\<rparr>\<rparr>"
  by (simp_all add: setCurrentRootAction_def setSearch_def setVisualState_def toggle_def
      setState_def)

lemma observe_state_update: "observe (w\<lparr>state := st\<rparr>) old = observe w old"
  by (simp add: observe_def)

subsection \<open>The allocation pointer\<close>

text \<open>
  The committed dictionary is always an allocated one: construction establishes
  this and the two registry operations keep it.
\<close>

lemma init_world_wf: "actions (state (init_world h acts)) < next_tree (init_world h acts)"
  by (simp add: init_world_def)

lemma registerActions_wf:
  assumes "actions (state w) < next_tree w"
  shows "actions (state (snd (registerActions acts w))) < next_tree (snd (registerActions acts w))"
proof (cases "fst (registerActions acts w)")
  case None
  from registerActions_committed [OF None] show ?thesis by simp
next
  case (Some e)
  from registerActions_failed [OF Some] assms show ?thesis by simp
qed

lemma unregister_wf:
  assumes "actions (state w) < next_tree w"
  shows "actions (state (snd (unregister acts w))) < next_tree (snd (unregister acts w))"
  using assms by (simp add: unregister_frame)

section \<open>Lemmas on subscribers\<close>




text \<open>
  A selector that returns the reference already stored (\<^verbatim>\<open>state => state.actions\<close>
  after \<^verbatim>\<open>unregister\<close>, which edits the dictionary in place and commits a snapshot
  that refers to it again) finds it equal to itself, whatever has been edited.
\<close>

lemma collect_same_reference:
  "collector s w = Inr (collected s) \<Longrightarrow> collect w s = (None, s, [])"
  by (simp add: collect_def collect_try_def deepEqual_def)





section \<open>Properties\<close>

subsection \<open>C1: a batch with a missing parent\<close>




subsection \<open>C2: the first collection\<close>

text \<open>
  Claim C2, as amended. When the selector returns a value other than \<^verbatim>\<open>undefined\<close>
  on the first \<^verbatim>\<open>collect()\<close> after \<^verbatim>\<open>subscribe(selector, onChange)\<close>, that value is
  stored and \<^verbatim>\<open>onChange\<close> is invoked with it (an exception of \<^verbatim>\<open>onChange\<close> is
  logged). The stored value starts as \<^verbatim>\<open>undefined\<close>, not as a sentinel.
\<close>

theorem first_collect_fires:
  assumes "sel (getState w) w = Inr v" and "v w \<noteq> JUndefined"
  shows "collect w (last (subscribe sel (Some f) subs)) =
           (None, (last (subscribe sel (Some f) subs))\<lparr>collected := v\<rparr>,
            Invoked (v w) # (case f (v w) of None \<Rightarrow> [] | Some e \<Rightarrow> [Warned e]))"
  using assms
  by (simp add: subscribe_def new_Subscriber_def collect_def collect_try_def deepEqual_def
      split: option.splits)

text \<open>The theorem for the selector \<^verbatim>\<open>state => state.searchQuery\<close> on a fresh store.\<close>

theorem first_collect_fires_witness:
  "collect (ex_world [])
     (last (subscribe (\<lambda>st w. Inr (\<lambda>w'. JStr (searchQuery st))) (Some (\<lambda>v. None)) [])) =
   (None,
    (last (subscribe (\<lambda>st w. Inr (\<lambda>w'. JStr (searchQuery st))) (Some (\<lambda>v. None)) []))
      \<lparr>collected := (\<lambda>w'. JStr '''')\<rparr>,
    [Invoked (JStr '''')])"
  using first_collect_fires [of "\<lambda>st w. Inr (\<lambda>w'. JStr (searchQuery st))" "ex_world []"
      "\<lambda>w'. JStr ''''" "\<lambda>v. None" "[]"]
  by (simp add: getState_def ex_world_def init_world_def)

text \<open>
  The claim as stated fails for a selector that returns \<^verbatim>\<open>undefined\<close>: the field
  \<^verbatim>\<open>collected\<close> is \<^verbatim>\<open>undefined\<close> too, \<^verbatim>\<open>deepEqual\<close> holds, and the first
  \<^verbatim>\<open>collect()\<close> neither stores anything nor invokes \<^verbatim>\<open>onChange\<close>.
\<close>

theorem first_collect_undefined_counterexample:
  "collect (ex_world [])
     (last (subscribe (\<lambda>st w. Inr (\<lambda>w'. JUndefined)) (Some (\<lambda>v. None)) [])) =
   (None, new_Subscriber (\<lambda>w. Inr (\<lambda>w'. JUndefined)) (Some (\<lambda>v. None)), [])"
  by (simp add: subscribe_def new_Subscriber_def collect_def collect_try_def deepEqual_def)

subsection \<open>C3: what \<^verbatim>\<open>unregister\<close> removes\<close>

text \<open>
  Claim C3 says that \<^verbatim>\<open>unregister\<close> removes every id of its batch from the
  committed dictionary, and that a missing parent only skips the detaching. The code
  does otherwise: register the batch \<^verbatim>\<open>[a, b]\<close> (\<^verbatim>\<open>b\<close> has the parent \<^verbatim>\<open>a\<close>) on an
  empty store and call the returned \<^verbatim>\<open>unregister\<close>. The loop deletes \<^verbatim>\<open>a\<close>; at \<^verbatim>\<open>b\<close>
  the parent \<^verbatim>\<open>a\<close> is no longer a key, and the \<^verbatim>\<open>return\<close> inside
  \<^verbatim>\<open>if (!parent?.children)\<close> leaves the callback before \<^verbatim>\<open>delete allActions[actionId]\<close>.
  So \<^verbatim>\<open>b\<close> stays in the committed dictionary.
\<close>

theorem unregister_leaves_child:
  "trees (snd (unregister [0, 1] (snd (registerActions [0, 1] (ex_world []))))) 1 ''a'' = None \<and>
   trees (snd (unregister [0, 1] (snd (registerActions [0, 1] (ex_world []))))) 1 ''b'' = Some 1 \<and>
   actions (state (snd (unregister [0, 1] (snd (registerActions [0, 1] (ex_world [])))))) = 1"
  by (simp add: ex_defs)

subsection \<open>C4: old snapshots\<close>

text \<open>
  Claim C4, as amended. \<^verbatim>\<open>setCurrentRootAction\<close>, \<^verbatim>\<open>setSearch\<close>, \<^verbatim>\<open>setVisualState\<close>
  and \<^verbatim>\<open>toggle\<close> commit a new snapshot and change nothing else: a reader holding
  the old snapshot observes what it observed before. \<^verbatim>\<open>registerActions\<close> allocates
  the dictionary it commits and leaves the old dictionary as it was, and every
  \<^verbatim>\<open>Action\<close> object keeps its id, payload and parent, but \<^verbatim>\<open>children\<close> arrays are
  appended to in place. \<^verbatim>\<open>unregister\<close> commits a snapshot that refers to the same
  dictionary as the old one, which it edits in place; every \<^verbatim>\<open>Action\<close> object keeps
  its id, payload and parent.
\<close>

theorem transitions_and_old_snapshot:
  assumes "actions (state w) < next_tree w"
  shows "observe (snd (setCurrentRootAction i w)) (state w) = observe w (state w) \<and>
         observe (snd (setSearch q w)) (state w) = observe w (state w) \<and>
         observe (snd (setVisualState u w)) (state w) = observe w (state w) \<and>
         observe (snd (toggle w)) (state w) = observe w (state w) \<and>
         trees (snd (registerActions acts w)) (actions (state w)) = trees w (actions (state w)) \<and>
         (\<forall>x. action_id (heap (snd (registerActions acts w)) x) = action_id (heap w x) \<and>
              name (heap (snd (registerActions acts w)) x) = name (heap w x) \<and>
              parent (heap (snd (registerActions acts w)) x) = parent (heap w x) \<and>
              extends (children (heap w x)) (children (heap (snd (registerActions acts w)) x))) \<and>
         actions (state (snd (unregister acts w))) = actions (state w) \<and>
         (\<forall>x. action_id (heap (snd (unregister acts w)) x) = action_id (heap w x) \<and>
              name (heap (snd (unregister acts w)) x) = name (heap w x) \<and>
              parent (heap (snd (unregister acts w)) x) = parent (heap w x))"
proof -
  from assms have "actions (state w) \<noteq> next_tree w" by simp
  then have "trees (snd (registerActions acts w)) (actions (state w)) = trees w (actions (state w))"
    by (rule registerActions_keeps_old_tree)
  moreover note registerActions_frame [of w _ acts] unregister_frame [of w _ acts]
  ultimately show ?thesis
    by (simp add: simple_updates observe_state_update same_but_children_def)
qed

text \<open>The theorem at the store that holds \<^verbatim>\<open>a\<close>, with the batch \<^verbatim>\<open>[b]\<close>.\<close>

theorem transitions_and_old_snapshot_witness:
  "observe (snd (setSearch ''x'' (ex_world [0]))) (state (ex_world [0])) =
     observe (ex_world [0]) (state (ex_world [0])) \<and>
   trees (snd (registerActions [1] (ex_world [0]))) (actions (state (ex_world [0]))) =
     trees (ex_world [0]) (actions (state (ex_world [0]))) \<and>
   extends (children (heap (ex_world [0]) 0))
     (children (heap (snd (registerActions [1] (ex_world [0]))) 0))"
proof -
  have "actions (state (ex_world [0])) < next_tree (ex_world [0])"
    by (simp add: ex_world_def init_world_def)
  from transitions_and_old_snapshot [OF this, of _ "''x''" _ "[1]"] show ?thesis by blast
qed

text \<open>
  The claim as stated fails at that store. Through the snapshot committed before
  the call, \<^verbatim>\<open>a\<close> has no children; after \<^verbatim>\<open>registerActions([b])\<close> the same snapshot
  shows \<^verbatim>\<open>a\<close> with the children \<^verbatim>\<open>["b"]\<close>; and after the \<^verbatim>\<open>unregister\<close> of the batch
  \<^verbatim>\<open>[a]\<close> the same snapshot no longer has the key \<^verbatim>\<open>a\<close>.
\<close>

theorem snapshot_mutated_counterexample:
  "snd (snd (snd (observe (ex_world [0]) (state (ex_world [0]))))) ''a'' =
     Some (action ''a'' None None) \<and>
   snd (snd (snd (observe (snd (registerActions [1] (ex_world [0]))) (state (ex_world [0]))))) ''a'' =
     Some (action ''a'' None (Some [''b''])) \<and>
   snd (snd (snd (observe (snd (unregister [0] (ex_world [0]))) (state (ex_world [0]))))) ''a'' =
     None"
  by (simp add: ex_defs observe_def)

subsection \<open>C5: the committed entry wins\<close>

text \<open>
  Claim C5. When every parent reference of the batch resolves (the linking loop
  runs to its end), \<^verbatim>\<open>registerActions\<close> commits, and the committed dictionary maps
  every id that was already a key to the object it mapped it to before, and every
  other id to what the batch gives it, which is an object of the batch that has
  this id. No \<^verbatim>\<open>Action\<close> object has its id, payload or parent overwritten, and the
  \<^verbatim>\<open>children\<close> of every \<^verbatim>\<open>Action\<close> object are exactly what linking the batch, in
  order, makes of them: ids of batch actions whose parent resolves to that very
  object are appended, and nothing is copied from one object to another.
\<close>

theorem registerActions_existing_wins:
  assumes "\<forall>a \<in> set acts. failure (trees w (actions (state w)))
             (actionsByKey (heap w) acts) (replaces_prototype (heap w) acts) (heap w) a = None"
  shows "fst (registerActions acts w) = None \<and>
         (\<forall>k. trees (snd (registerActions acts w)) (actions (state (snd (registerActions acts w)))) k =
              (case trees w (actions (state w)) k of
                 Some r \<Rightarrow> Some r
               | None \<Rightarrow> actionsByKey (heap w) acts k)) \<and>
         (\<forall>k r. actionsByKey (heap w) acts k = Some r \<longrightarrow>
              r \<in> set acts \<and> action_id (heap w r) = k) \<and>
         (\<forall>x. action_id (heap (snd (registerActions acts w)) x) = action_id (heap w x) \<and>
              name (heap (snd (registerActions acts w)) x) = name (heap w x) \<and>
              parent (heap (snd (registerActions acts w)) x) = parent (heap w x) \<and>
              children (heap (snd (registerActions acts w)) x) =
                children_after (trees w (actions (state w))) (actionsByKey (heap w) acts)
                  (replaces_prototype (heap w) acts) (heap w) acts x (children (heap w x)))"
proof -
  let ?c = "trees w (actions (state w))"
  let ?i = "actionsByKey (heap w) acts"
  let ?r = "replaces_prototype (heap w) acts"
  from assms have ff: "first_failure ?c ?i ?r (heap w) acts = None"
    by (simp add: first_failure_None)
  then have e: "fst (registerActions acts w) = None"
    by (simp add: registerActions_error)
  note w' = registerActions_committed [OF e]
  have m: "trees (snd (registerActions acts w)) (actions (state (snd (registerActions acts w)))) k =
          (case ?c k of Some r \<Rightarrow> Some r | None \<Rightarrow> ?i k)" for k
    using w' by (simp add: map_add_def)
  have k: "children (heap (snd (registerActions acts w)) x) =
      children_after ?c ?i ?r (heap w) acts x (children (heap w x))" for x
    using registerActions_children [of acts w x] by (simp add: reached_all [OF ff])
  from e m k actionsByKey_Some [of "heap w" acts] registerActions_frame [of w _ acts]
  show ?thesis
    by (simp add: same_but_children_def)
qed

text \<open>
  The theorem at the store that holds \<^verbatim>\<open>a\<close>, for a batch made of a second object
  with the id \<^verbatim>\<open>a\<close> (and the children \<^verbatim>\<open>["x"]\<close>) and of \<^verbatim>\<open>b\<close>: the key \<^verbatim>\<open>a\<close> still
  refers to the first object, whose children become \<^verbatim>\<open>["b"]\<close>; the children of the
  second object stay its own.
\<close>

theorem registerActions_existing_wins_witness:
  "fst (registerActions [6, 1] (ex_world [0])) = None \<and>
   trees (snd (registerActions [6, 1] (ex_world [0])))
     (actions (state (snd (registerActions [6, 1] (ex_world [0]))))) ''a'' = Some 0 \<and>
   trees (snd (registerActions [6, 1] (ex_world [0])))
     (actions (state (snd (registerActions [6, 1] (ex_world [0]))))) ''b'' = Some 1 \<and>
   name (heap (snd (registerActions [6, 1] (ex_world [0]))) 0) = ''a'' \<and>
   children (heap (snd (registerActions [6, 1] (ex_world [0]))) 0) = Some [''b''] \<and>
   children (heap (snd (registerActions [6, 1] (ex_world [0]))) 6) = Some [''x'']"
proof -
  let ?w = "ex_world [0]"
  let ?c = "trees ?w (actions (state ?w))"
  let ?i = "actionsByKey (heap ?w) [6, 1]"
  let ?r = "replaces_prototype (heap ?w) [6, 1]"
  have h: "\<forall>a \<in> set [6, 1]. failure ?c ?i ?r (heap ?w) a = None"
    by (simp add: ex_defs failure_def)
  note t = registerActions_existing_wins [OF h]
  have a: "(case ?c ''a'' of Some r \<Rightarrow> Some r | None \<Rightarrow> ?i ''a'') = Some 0"
    by (simp add: ex_defs)
  have b: "(case ?c ''b'' of Some r \<Rightarrow> Some r | None \<Rightarrow> ?i ''b'') = Some 1"
    by (simp add: ex_defs)
  have n: "name (heap ?w 0) = ''a''" by (simp add: ex_defs)
  have k0: "children_after ?c ?i ?r (heap ?w) [6, 1] 0 (children (heap ?w 0)) = Some [''b'']"
    by (simp add: ex_defs targets_def push_new_def)
  have k6: "children_after ?c ?i ?r (heap ?w) [6, 1] 6 (children (heap ?w 6)) = Some [''x'']"
    by (simp add: ex_defs targets_def push_new_def)
  from t a b n k0 k6 show ?thesis by metis
qed

subsection \<open>C6: the visual state machine\<close>

text \<open>
  Claim C6. From every committed snapshot \<^verbatim>\<open>toggle()\<close> commits a snapshot whose
  visual state is: \<open>animatingIn\<close> from \<open>hidden\<close> and from \<open>animatingOut\<close>,
  \<open>animatingOut\<close> from \<open>animatingIn\<close> and from \<open>showing\<close>. It does not throw.
\<close>

theorem toggle_transitions:
  "fst (toggle w) = None \<and>
   visualState (state (snd (toggle w))) =
     (case visualState (state w) of
        hidden \<Rightarrow> animatingIn
      | animatingOut \<Rightarrow> animatingIn
      | animatingIn \<Rightarrow> animatingOut
      | showing \<Rightarrow> animatingOut)"
  by (cases "visualState (state w)") (simp_all add: toggle_def setState_def)

subsection \<open>C7: \<^verbatim>\<open>unregister\<close> twice\<close>




subsection \<open>C8: a parent and its child in one batch\<close>




subsection \<open>C9: exceptions of subscribers\<close>




subsection \<open>C10: a failed delivery is not retried\<close>



end
